theory Spec2Isabelle
  imports Complex_Main "HOL-Library.Sublist"
begin

section \<open>Values of the program\<close>

text \<open>
  The value \<open>response.json()\<close> returns: Python's image of a JSON document. A dict is
  kept as the list of its entries in document order and is read through \<open>map_of\<close>;
  Python's \<open>None\<close> is \<open>JNull\<close>.
\<close>

datatype json =
    JNull
  | JBool bool
  | JInt int
  | JFloat real
  | JStr string
  | JArr "json list"
  | JObj "(string \<times> json) list"

text \<open>The exceptions that the operations of the function can raise.\<close>

datatype py_error =
    JSONDecodeError
  | UnicodeDecodeError
  | KeyError string
  | TypeError
  | AttributeError

text \<open>The frozen dataclass. No field is type checked at construction.\<close>

record ReadwiseItem =
  item_id :: json
  url :: json
  title :: json

text \<open>
  What the caller of the function observes: an exception that escapes, or the returned
  value, where \<open>Returned None\<close> is Python's \<open>return None\<close>.
\<close>

datatype outcome =
    Raised py_error
  | Returned "ReadwiseItem list option"

section \<open>The HTTP exchange\<close>

text \<open>The keyword arguments of \<open>client.get\<close>.\<close>

record request =
  rq_url :: string
  rq_headers :: "(string \<times> string) list"
  rq_params :: "(string \<times> json) list option"

text \<open>
  A response: its status code, and what \<open>json()\<close> does with its body, which is to
  return the parsed document or to raise. A body that is text but not JSON raises
  \<open>JSONDecodeError\<close>; a body whose bytes are not text raises
  \<open>UnicodeDecodeError\<close>.
\<close>

record response =
  status_code :: int
  body :: "py_error + json"

text \<open>
  The remote service: the answer to the request with a given index (counted from 0) may
  depend on the index and on the request.
\<close>

type_synonym server = "nat \<Rightarrow> request \<Rightarrow> response"

text \<open>
  The property \<open>is_error\<close> of the HTTP library: the status code is a client error or
  a server error. The client is created without options, so it does not follow redirects,
  and a status code from 300 to 399 reaches the function like any other.
\<close>

definition is_error :: "response \<Rightarrow> bool" where
  "is_error r = (400 \<le> status_code r \<and> status_code r \<le> 599)"

section \<open>The Python operations the function applies to JSON values\<close>

fun str_contains :: "string \<Rightarrow> string \<Rightarrow> bool" where
  "str_contains k [] = (k = [])"
| "str_contains k (c # cs) = (prefix k (c # cs) \<or> str_contains k cs)"

text \<open>\<open>k in v\<close> for a string \<open>k\<close>.\<close>

fun py_in :: "string \<Rightarrow> json \<Rightarrow> py_error + bool" where
  "py_in k (JObj kvs) = Inr (map_of kvs k \<noteq> None)"
| "py_in k (JArr xs) = Inr (JStr k \<in> set xs)"
| "py_in k (JStr s) = Inr (str_contains k s)"
| "py_in k JNull = Inl TypeError"
| "py_in k (JBool b) = Inl TypeError"
| "py_in k (JInt i) = Inl TypeError"
| "py_in k (JFloat x) = Inl TypeError"

text \<open>\<open>v[k]\<close> for a string \<open>k\<close>.\<close>

fun py_getitem :: "json \<Rightarrow> string \<Rightarrow> py_error + json" where
  "py_getitem (JObj kvs) k = (case map_of kvs k of None \<Rightarrow> Inl (KeyError k) | Some v \<Rightarrow> Inr v)"
| "py_getitem JNull k = Inl TypeError"
| "py_getitem (JBool b) k = Inl TypeError"
| "py_getitem (JInt i) k = Inl TypeError"
| "py_getitem (JFloat x) k = Inl TypeError"
| "py_getitem (JStr s) k = Inl TypeError"
| "py_getitem (JArr xs) k = Inl TypeError"

text \<open>\<open>v.get(k, d)\<close>.\<close>

fun py_get :: "json \<Rightarrow> string \<Rightarrow> json \<Rightarrow> py_error + json" where
  "py_get (JObj kvs) k d = Inr (case map_of kvs k of None \<Rightarrow> d | Some v \<Rightarrow> v)"
| "py_get JNull k d = Inl AttributeError"
| "py_get (JBool b) k d = Inl AttributeError"
| "py_get (JInt i) k d = Inl AttributeError"
| "py_get (JFloat x) k d = Inl AttributeError"
| "py_get (JStr s) k d = Inl AttributeError"
| "py_get (JArr xs) k d = Inl AttributeError"

text \<open>The elements \<open>for item in v\<close> runs through.\<close>

fun py_iter :: "json \<Rightarrow> py_error + json list" where
  "py_iter (JArr xs) = Inr xs"
| "py_iter (JObj kvs) = Inr (map (\<lambda>kv. JStr (fst kv)) kvs)"
| "py_iter (JStr s) = Inr (map (\<lambda>c. JStr [c]) s)"
| "py_iter JNull = Inl TypeError"
| "py_iter (JBool b) = Inl TypeError"
| "py_iter (JInt i) = Inl TypeError"
| "py_iter (JFloat x) = Inl TypeError"

section \<open>The function\<close>

text \<open>
  \<open>ReadwiseItem(item["id"], item["url"], item.get("title", None))\<close>, the arguments
  evaluated from left to right.
\<close>

definition make_item :: "json \<Rightarrow> py_error + ReadwiseItem" where
  "make_item item =
     (case py_getitem item ''id'' of
        Inl e \<Rightarrow> Inl e
      | Inr i \<Rightarrow>
          (case py_getitem item ''url'' of
             Inl e \<Rightarrow> Inl e
           | Inr u \<Rightarrow>
               (case py_get item ''title'' JNull of
                  Inl e \<Rightarrow> Inl e
                | Inr t \<Rightarrow> Inr \<lparr>item_id = i, url = u, title = t\<rparr>)))"

text \<open>The list comprehension over the entries, stopping at the first exception.\<close>

fun make_items :: "json list \<Rightarrow> py_error + ReadwiseItem list" where
  "make_items [] = Inr []"
| "make_items (item # rest) =
     (case make_item item of
        Inl e \<Rightarrow> Inl e
      | Inr x \<Rightarrow> (case make_items rest of Inl e \<Rightarrow> Inl e | Inr xs \<Rightarrow> Inr (x # xs)))"

text \<open>\<open>[ReadwiseItem(...) for item in json_response["results"]]\<close>.\<close>

definition parse_items :: "json \<Rightarrow> py_error + ReadwiseItem list" where
  "parse_items json_response =
     (case py_getitem json_response ''results'' of
        Inl e \<Rightarrow> Inl e
      | Inr rs \<Rightarrow> (case py_iter rs of Inl e \<Rightarrow> Inl e | Inr entries \<Rightarrow> make_items entries))"

text \<open>The local variables that live across iterations of the loop.\<close>

record locals =
  results :: "ReadwiseItem list"
  parsed_all_results :: bool
  next_page_cursor :: json

definition initial :: locals where
  "initial = \<lparr>results = [], parsed_all_results = False, next_page_cursor = JNull\<rparr>"

text \<open>The request of an iteration, built from the key and the current cursor.\<close>

definition page_request :: "string \<Rightarrow> locals \<Rightarrow> request" where
  "page_request READWISE_API_KEY s =
     \<lparr>rq_url = ''https://readwise.io/api/v3/list/'',
      rq_headers = [(''Authorization'', ''Token '' @ READWISE_API_KEY)],
      rq_params =
        (if next_page_cursor s \<noteq> JNull then Some [(''pageCursor'', next_page_cursor s)]
         else None)\<rparr>"

text \<open>The block under the comment \<open>pagination handling\<close>.\<close>

definition pagination :: "json \<Rightarrow> locals \<Rightarrow> py_error + locals" where
  "pagination json_response s =
     (case py_in ''nextPageCursor'' json_response of
        Inl e \<Rightarrow> Inl e
      | Inr False \<Rightarrow> Inr s
      | Inr True \<Rightarrow>
          (case py_getitem json_response ''nextPageCursor'' of
             Inl e \<Rightarrow> Inl e
           | Inr c \<Rightarrow>
               Inr (s\<lparr>next_page_cursor := c,
                      parsed_all_results :=
                        (if c = JNull \<or> c = JStr [] then True else parsed_all_results s)\<rparr>)))"

text \<open>
  The body of the while loop after the response has arrived: \<open>Inl\<close> leaves the function,
  \<open>Inr\<close> goes back to the loop test. The comprehension always yields a list, so the
  test \<open>parsed_items is None\<close> never fires and has no branch here.
\<close>

definition loop_body :: "locals \<Rightarrow> response \<Rightarrow> outcome + locals" where
  "loop_body s r =
     (if is_error r then Inl (Returned None)
      else
        (case body r of
           Inl e \<Rightarrow> Inl (Raised e)
         | Inr json_response \<Rightarrow>
             (case py_in ''results'' json_response of
                Inl e \<Rightarrow> Inl (Raised e)
              | Inr False \<Rightarrow> Inl (Returned None)
              | Inr True \<Rightarrow>
                  (case pagination json_response s of
                     Inl e \<Rightarrow> Inl (Raised e)
                   | Inr s' \<Rightarrow>
                       (case parse_items json_response of
                          Inl e \<Rightarrow> Inl (Raised e)
                        | Inr parsed_items \<Rightarrow>
                            Inr (s'\<lparr>results := results s' @ parsed_items\<rparr>))))))"

text \<open>
  The while loop, from the state \<open>s\<close> at the loop test before request number \<open>n\<close>. The
  loop may run forever, which is the value \<open>None\<close>.
\<close>

partial_function (option) fetch_loop :: "string \<Rightarrow> server \<Rightarrow> nat \<Rightarrow> locals \<Rightarrow> outcome option" where
  "fetch_loop READWISE_API_KEY client n s =
     (if parsed_all_results s then Some (Returned (Some (results s)))
      else
        (case loop_body s (client n (page_request READWISE_API_KEY s)) of
           Inl out \<Rightarrow> Some out
         | Inr s' \<Rightarrow> fetch_loop READWISE_API_KEY client (Suc n) s'))"

definition get_list_of_all_articles :: "string \<Rightarrow> server \<Rightarrow> outcome option" where
  "get_list_of_all_articles READWISE_API_KEY client = fetch_loop READWISE_API_KEY client 0 initial"

text \<open>
  The same loop cut off after \<open>k\<close> passes through the loop test: \<open>Inl\<close> when the function
  has left by then, \<open>Inr\<close> the state at the next loop test otherwise.
\<close>

fun run :: "string \<Rightarrow> server \<Rightarrow> nat \<Rightarrow> locals \<Rightarrow> nat \<Rightarrow> outcome + locals" where
  "run READWISE_API_KEY client n s 0 = Inr s"
| "run READWISE_API_KEY client n s (Suc k) =
     (if parsed_all_results s then Inl (Returned (Some (results s)))
      else
        (case loop_body s (client n (page_request READWISE_API_KEY s)) of
           Inl out \<Rightarrow> Inl out
         | Inr s' \<Rightarrow> run READWISE_API_KEY client (Suc n) s' k))"

section \<open>What the server has supplied\<close>

text \<open>A field of a JSON object; a value that is not an object has no field.\<close>

fun field :: "json \<Rightarrow> string \<Rightarrow> json option" where
  "field (JObj kvs) k = map_of kvs k"
| "field JNull k = None"
| "field (JBool b) k = None"
| "field (JInt i) k = None"
| "field (JFloat x) k = None"
| "field (JStr s) k = None"
| "field (JArr xs) k = None"

text \<open>
  The request with index \<open>n\<close>, when the function gets as far as sending it, and the
  response to it.
\<close>

definition request_at :: "string \<Rightarrow> server \<Rightarrow> nat \<Rightarrow> request option" where
  "request_at READWISE_API_KEY client n =
     (case run READWISE_API_KEY client 0 initial n of
        Inl out \<Rightarrow> None
      | Inr s \<Rightarrow> if parsed_all_results s then None else Some (page_request READWISE_API_KEY s))"

definition response_at :: "string \<Rightarrow> server \<Rightarrow> nat \<Rightarrow> response option" where
  "response_at READWISE_API_KEY client n =
     (case request_at READWISE_API_KEY client n of None \<Rightarrow> None | Some rq \<Rightarrow> Some (client n rq))"

text \<open>The value of the field \<open>nextPageCursor\<close> of a response, when its body has one.\<close>

definition supplied_cursor :: "response \<Rightarrow> json option" where
  "supplied_cursor r = (case body r of Inl e \<Rightarrow> None | Inr j \<Rightarrow> field j ''nextPageCursor'')"

text \<open>The cursor most recently supplied by the responses with an index below \<open>n\<close>.\<close>

fun latest_cursor :: "string \<Rightarrow> server \<Rightarrow> nat \<Rightarrow> json option" where
  "latest_cursor READWISE_API_KEY client 0 = None"
| "latest_cursor READWISE_API_KEY client (Suc n) =
     (case response_at READWISE_API_KEY client n of
        None \<Rightarrow> latest_cursor READWISE_API_KEY client n
      | Some r \<Rightarrow>
          (case supplied_cursor r of
             None \<Rightarrow> latest_cursor READWISE_API_KEY client n
           | Some c \<Rightarrow> Some c))"

text \<open>
  A response that the loop cannot survive: an error status (a status code from 400 to
  599), a body without a field \<open>results\<close>, or a body whose field \<open>nextPageCursor\<close>
  is null or the empty string.
\<close>

definition ending :: "response \<Rightarrow> bool" where
  "ending r =
     (is_error r \<or>
      (case body r of
         Inl e \<Rightarrow> False
       | Inr j \<Rightarrow>
           field j ''results'' = None \<or>
           field j ''nextPageCursor'' = Some JNull \<or>
           field j ''nextPageCursor'' = Some (JStr [])))"

section \<open>Concrete servers\<close>

text \<open>A response with the status code 200 and the given parsed body.\<close>

definition ok_page :: "json \<Rightarrow> response" where
  "ok_page j = \<lparr>status_code = 200, body = Inr j\<rparr>"

text \<open>
  A server that answers the first requests from a list, in order, and every later
  request with \<open>d\<close>.
\<close>

fun replay :: "response list \<Rightarrow> response \<Rightarrow> server" where
  "replay [] d n rq = d"
| "replay (r # rs) d 0 rq = r"
| "replay (r # rs) d (Suc n) rq = replay rs d n rq"

definition article1 :: json where
  "article1 = JObj [(''id'', JStr ''1''), (''url'', JStr ''u1'')]"

definition article2 :: json where
  "article2 = JObj [(''id'', JStr ''2''), (''url'', JStr ''u2''), (''title'', JStr ''T'')]"

definition article3 :: json where
  "article3 = JObj [(''id'', JStr ''3''), (''url'', JStr ''u3''), (''title'', JNull)]"

definition item1 :: ReadwiseItem where
  "item1 = \<lparr>item_id = JStr ''1'', url = JStr ''u1'', title = JNull\<rparr>"

definition item2 :: ReadwiseItem where
  "item2 = \<lparr>item_id = JStr ''2'', url = JStr ''u2'', title = JStr ''T''\<rparr>"

definition item3 :: ReadwiseItem where
  "item3 = \<lparr>item_id = JStr ''3'', url = JStr ''u3'', title = JNull\<rparr>"

text \<open>
  A stateless service with a single page of one article, which it sends without a field
  \<open>nextPageCursor\<close>.
\<close>

definition single_page_server :: server where
  "single_page_server n rq = ok_page (JObj [(''results'', JArr [article1])])"

text \<open>
  A stateless service with two pages: a request without a cursor gets the first page and
  the cursor \<open>abc\<close>; a request with a cursor gets the last page, sent without a field
  \<open>nextPageCursor\<close>.
\<close>

definition two_page_server :: server where
  "two_page_server n rq =
     (if rq_params rq = None
      then ok_page (JObj [(''results'', JArr [article1, article2]), (''nextPageCursor'', JStr ''abc'')])
      else ok_page (JObj [(''results'', JArr [article3])]))"

text \<open>A response with the status code 200 whose body is text but not JSON.\<close>

definition garbage :: response where
  "garbage = \<lparr>status_code = 200, body = Inl JSONDecodeError\<rparr>"

text \<open>A response with the status code 500; its body is not JSON either.\<close>

definition failure :: response where
  "failure = \<lparr>status_code = 500, body = Inl JSONDecodeError\<rparr>"

text \<open>Pages of one article each: with the cursor \<open>c1\<close>, with a null cursor, with an empty one.\<close>

definition page_c1 :: response where
  "page_c1 = ok_page (JObj [(''results'', JArr [article1]), (''nextPageCursor'', JStr ''c1'')])"

definition page_null :: response where
  "page_null = ok_page (JObj [(''results'', JArr [article2]), (''nextPageCursor'', JNull)])"

definition page_empty :: response where
  "page_empty = ok_page (JObj [(''results'', JArr [article3]), (''nextPageCursor'', JStr [])])"

text \<open>The state of the loop after \<open>page_c1\<close> as the first page.\<close>

definition after_c1 :: locals where
  "after_c1 = \<lparr>results = [item1], parsed_all_results = False, next_page_cursor = JStr ''c1''\<rparr>"

text \<open>A page with the status code 200 and a cursor, but without a field \<open>results\<close>.\<close>

definition no_results :: response where
  "no_results = ok_page (JObj [(''nextPageCursor'', JStr ''c2'')])"

text \<open>An entry with an id and a title, but without a url.\<close>

definition bad_article :: json where
  "bad_article = JObj [(''id'', JStr ''9''), (''title'', JStr ''no url'')]"

text \<open>A response with the status code 200 whose body is not even text.\<close>

definition undecodable :: response where
  "undecodable = \<lparr>status_code = 200, body = Inl UnicodeDecodeError\<rparr>"

text \<open>
  A redirect that carries a last page: the status code 302, one article and a null
  cursor.
\<close>

definition redirect_last :: response where
  "redirect_last =
     \<lparr>status_code = 302,
      body = Inr (JObj [(''results'', JArr [article1]), (''nextPageCursor'', JNull)])\<rparr>"

text \<open>
  A service that answers every request with the status code 302, one article and the
  cursor \<open>c1\<close>.
\<close>

definition redirecting_server :: server where
  "redirecting_server n rq =
     \<lparr>status_code = 302,
      body = Inr (JObj [(''results'', JArr [article1]), (''nextPageCursor'', JStr ''c1'')])\<rparr>"


section \<open>The loop and its bounded runs\<close>

lemma fetch_loop_run_Inl:
  "run key client n s k = Inl out \<Longrightarrow> fetch_loop key client n s = Some out"
proof (induction k arbitrary: n s)
  case 0
  then show ?case by simp
next
  case (Suc k)
  show ?case
  proof (cases "parsed_all_results s")
    case True
    with Suc.prems show ?thesis by (simp add: fetch_loop.simps)
  next
    case False
    show ?thesis
    proof (cases "loop_body s (client n (page_request key s))")
      case (Inl o')
      with False Suc.prems show ?thesis by (simp add: fetch_loop.simps)
    next
      case (Inr s')
      with False Suc.prems have "run key client (Suc n) s' k = Inl out" by simp
      then have "fetch_loop key client (Suc n) s' = Some out" by (rule Suc.IH)
      with False Inr show ?thesis by (simp add: fetch_loop.simps)
    qed
  qed
qed

lemma fetch_loop_run_Inr:
  "run key client n s k = Inr s' \<Longrightarrow>
   fetch_loop key client n s = fetch_loop key client (n + k) s'"
proof (induction k arbitrary: n s)
  case 0
  then show ?case by simp
next
  case (Suc k)
  from Suc.prems have np: "\<not> parsed_all_results s" by (auto split: if_splits)
  from Suc.prems np obtain s1 where
    b: "loop_body s (client n (page_request key s)) = Inr s1" and
    r: "run key client (Suc n) s1 k = Inr s'"
    by (auto split: sum.splits)
  from r have "fetch_loop key client (Suc n) s1 = fetch_loop key client (Suc n + k) s'"
    by (rule Suc.IH)
  with np b show ?case by (simp add: fetch_loop.simps)
qed

lemma fetch_loop_Some_run:
  assumes "fetch_loop key client n s = Some out"
  shows "\<exists>k. run key client n s k = Inl out"
proof (rule fetch_loop.raw_induct
    [where P = "\<lambda>key client n s out. \<exists>k. run key client n s k = Inl out", OF _ assms], goal_cases)
  case (1 f key client n s out)
  show ?case
  proof (cases "parsed_all_results s")
    case True
    with 1(2) have "run key client n s (Suc 0) = Inl out" by simp
    then show ?thesis ..
  next
    case False
    show ?thesis
    proof (cases "loop_body s (client n (page_request key s))")
      case (Inl o')
      with False 1(2) have "run key client n s (Suc 0) = Inl out" by simp
      then show ?thesis ..
    next
      case (Inr s')
      with False 1(2) have "f key client (Suc n) s' = Some out" by simp
      then obtain k where "run key client (Suc n) s' k = Inl out" using 1(1) by blast
      with False Inr have "run key client n s (Suc k) = Inl out" by simp
      then show ?thesis ..
    qed
  qed
qed

lemma fetch_loop_None:
  assumes "\<And>k. \<exists>s'. run key client n s k = Inr s'"
  shows "fetch_loop key client n s = None"
proof (cases "fetch_loop key client n s")
  case None
  then show ?thesis .
next
  case (Some out)
  then obtain k where "run key client n s k = Inl out" using fetch_loop_Some_run by blast
  with assms [of k] show ?thesis by auto
qed

lemma run_Suc_end:
  "run key client n s (Suc k) =
     (case run key client n s k of
        Inl out \<Rightarrow> Inl out
      | Inr s' \<Rightarrow> run key client (n + k) s' (Suc 0))"
proof (induction k arbitrary: n s)
  case 0
  show ?case by (simp split: sum.splits)
next
  case (Suc k)
  show ?case
  proof (cases "parsed_all_results s")
    case True
    then show ?thesis by simp
  next
    case False
    show ?thesis
    proof (cases "loop_body s (client n (page_request key s))")
      case (Inl o')
      with False show ?thesis by simp
    next
      case (Inr s1)
      have step: "run key client n s (Suc j) = run key client (Suc n) s1 j" for j
        using False Inr by simp
      have "run key client n s (Suc (Suc k)) = run key client (Suc n) s1 (Suc k)"
        by (rule step)
      also have "\<dots> = (case run key client (Suc n) s1 k of
        Inl out \<Rightarrow> Inl out | Inr s' \<Rightarrow> run key client (Suc n + k) s' (Suc 0))"
        by (rule Suc.IH)
      also have "\<dots> = (case run key client n s (Suc k) of
        Inl out \<Rightarrow> Inl out | Inr s' \<Rightarrow> run key client (n + Suc k) s' (Suc 0))"
        by (simp only: step add_Suc add_Suc_right)
      finally show ?thesis .
    qed
  qed
qed

lemma run_Inl_Suc:
  assumes "run key client n s k = Inl out"
  shows "run key client n s (Suc k) = Inl out"
  by (subst run_Suc_end) (simp only: assms sum.case)

lemma run_Inl_add:
  assumes "run key client n s k = Inl out"
  shows "run key client n s (k + j) = Inl out"
proof (induction j)
  case 0
  from assms show ?case by simp
next
  case (Suc j)
  then have "run key client n s (Suc (k + j)) = Inl out" by (rule run_Inl_Suc)
  then show ?case by (simp only: add_Suc_right)
qed

lemma run_one:
  "run key client n s (Suc 0) =
     (if parsed_all_results s then Inl (Returned (Some (results s)))
      else loop_body s (client n (page_request key s)))"
  by (simp split: sum.splits)

lemma run_Inr_Suc:
  assumes "run key client 0 initial n = Inr s"
  shows "run key client 0 initial (Suc n) =
     (if parsed_all_results s then Inl (Returned (Some (results s)))
      else loop_body s (client n (page_request key s)))"
  by (subst run_Suc_end) (simp only: assms sum.case add_0 run_one)


lemma pagination_obj:
  "pagination (JObj kvs) s =
     Inr (case map_of kvs ''nextPageCursor'' of
            None \<Rightarrow> s
          | Some c \<Rightarrow>
              s\<lparr>next_page_cursor := c,
                parsed_all_results := (c = JNull \<or> c = JStr [] \<or> parsed_all_results s)\<rparr>)"
  by (cases "map_of kvs ''nextPageCursor''") (simp_all add: pagination_def)

text \<open>The loop body on a response whose body is a JSON object.\<close>

lemma loop_body_obj:
  assumes "\<not> is_error r" and "body r = Inr (JObj kvs)"
  shows "loop_body s r =
     (case map_of kvs ''results'' of
        None \<Rightarrow> Inl (Returned None)
      | Some rs \<Rightarrow>
          (case py_iter rs of
             Inl e \<Rightarrow> Inl (Raised e)
           | Inr entries \<Rightarrow>
               (case make_items entries of
                  Inl e \<Rightarrow> Inl (Raised e)
                | Inr items \<Rightarrow>
                    Inr ((case map_of kvs ''nextPageCursor'' of
                            None \<Rightarrow> s
                          | Some c \<Rightarrow>
                              s\<lparr>next_page_cursor := c,
                                parsed_all_results :=
                                  (c = JNull \<or> c = JStr [] \<or> parsed_all_results s)\<rparr>)
                         \<lparr>results :=
                            results (case map_of kvs ''nextPageCursor'' of
                                       None \<Rightarrow> s
                                     | Some c \<Rightarrow>
                                         s\<lparr>next_page_cursor := c,
                                           parsed_all_results :=
                                             (c = JNull \<or> c = JStr [] \<or> parsed_all_results s)\<rparr>)
                            @ items\<rparr>))))"
proof (cases "map_of kvs ''results''")
  case None
  with assms show ?thesis by (simp add: loop_body_def)
next
  case (Some rs)
  with assms show ?thesis
    by (simp add: loop_body_def pagination_obj parse_items_def
        split: sum.splits)
qed

text \<open>A body that is not a JSON object never lets the loop go on.\<close>


text \<open>A body without a field \<open>results\<close> never lets the loop go on.\<close>

lemma loop_body_no_results:
  assumes "field j ''results'' = None" and "body r = Inr j"
  shows "\<exists>out. loop_body s r = Inl out"
proof (cases "is_error r")
  case True
  then show ?thesis by (simp add: loop_body_def)
next
  case False
  show ?thesis
  proof (cases j)
    case (JObj kvs)
    with assms False show ?thesis by (simp add: loop_body_obj)
  next
    case (JArr xs)
    with assms False show ?thesis
      by (simp add: loop_body_def pagination_def parse_items_def
          split: sum.splits bool.splits)
  next
    case (JStr x)
    with assms False show ?thesis
      by (simp add: loop_body_def pagination_def parse_items_def
          split: sum.splits bool.splits)
  qed (use assms False in \<open>simp_all add: loop_body_def\<close>)
qed

text \<open>What an iteration that goes back to the loop test has seen and done.\<close>

lemma loop_body_Inr:
  assumes "loop_body s r = Inr s'"
  shows "\<exists>kvs rs entries items.
           \<not> is_error r \<and> body r = Inr (JObj kvs) \<and> map_of kvs ''results'' = Some rs \<and>
           py_iter rs = Inr entries \<and> make_items entries = Inr items \<and>
           results s' = results s @ items \<and>
           next_page_cursor s' =
             (case map_of kvs ''nextPageCursor'' of None \<Rightarrow> next_page_cursor s | Some c \<Rightarrow> c) \<and>
           parsed_all_results s' =
             (case map_of kvs ''nextPageCursor'' of
                None \<Rightarrow> parsed_all_results s
              | Some c \<Rightarrow> c = JNull \<or> c = JStr [] \<or> parsed_all_results s)"
proof -
  from assms have ne: "\<not> is_error r" by (auto simp: loop_body_def split: if_splits)
  from assms ne obtain j where j: "body r = Inr j"
    by (cases "body r") (auto simp: loop_body_def)
  have "field j ''results'' \<noteq> None"
  proof
    assume "field j ''results'' = None"
    from loop_body_no_results [OF this j, of s] assms show False by auto
  qed
  then obtain kvs rs where kvs: "j = JObj kvs" and rs: "map_of kvs ''results'' = Some rs"
    by (cases j) auto
  note lb = loop_body_obj [OF ne j [unfolded kvs], of s]
  from assms lb rs obtain entries where en: "py_iter rs = Inr entries"
    by (cases "py_iter rs") auto
  from assms lb rs en obtain items where it: "make_items entries = Inr items"
    by (cases "make_items entries") auto
  from assms lb rs en it have s': "s' =
    (case map_of kvs ''nextPageCursor'' of
       None \<Rightarrow> s
     | Some c \<Rightarrow> s\<lparr>next_page_cursor := c,
         parsed_all_results := (c = JNull \<or> c = JStr [] \<or> parsed_all_results s)\<rparr>)
    \<lparr>results := results (case map_of kvs ''nextPageCursor'' of
       None \<Rightarrow> s
     | Some c \<Rightarrow> s\<lparr>next_page_cursor := c,
         parsed_all_results := (c = JNull \<or> c = JStr [] \<or> parsed_all_results s)\<rparr>) @ items\<rparr>"
    by simp
  have "results s' = results s @ items" 
    by (cases "map_of kvs ''nextPageCursor''") (simp_all add: s')
  moreover have "next_page_cursor s' =
             (case map_of kvs ''nextPageCursor'' of None \<Rightarrow> next_page_cursor s | Some c \<Rightarrow> c)"
    by (cases "map_of kvs ''nextPageCursor''") (simp_all add: s')
  moreover have "parsed_all_results s' =
             (case map_of kvs ''nextPageCursor'' of
                None \<Rightarrow> parsed_all_results s
              | Some c \<Rightarrow> c = JNull \<or> c = JStr [] \<or> parsed_all_results s)"
    by (cases "map_of kvs ''nextPageCursor''") (simp_all add: s')
  ultimately show ?thesis using ne j kvs rs en it by blast
qed

text \<open>An ending response ends the loop within its iteration.\<close>

lemma loop_body_ending:
  assumes "ending r"
  shows "(\<exists>out. loop_body s r = Inl out) \<or> (\<exists>s'. loop_body s r = Inr s' \<and> parsed_all_results s')"
proof (cases "loop_body s r")
  case (Inl out)
  then show ?thesis by simp
next
  case (Inr s')
  from loop_body_Inr [OF Inr] obtain kvs rs where
    ne: "\<not> is_error r" and b: "body r = Inr (JObj kvs)" and rs: "map_of kvs ''results'' = Some rs" and
    p: "parsed_all_results s' =
             (case map_of kvs ''nextPageCursor'' of
                None \<Rightarrow> parsed_all_results s
              | Some c \<Rightarrow> c = JNull \<or> c = JStr [] \<or> parsed_all_results s)"
    by blast
  from assms ne b rs have "map_of kvs ''nextPageCursor'' = Some JNull \<or>
      map_of kvs ''nextPageCursor'' = Some (JStr [])"
    by (simp add: ending_def)
  with p have "parsed_all_results s'" by auto
  with Inr show ?thesis by simp
qed

section \<open>A last page without a cursor field\<close>

lemma single_page_step:
  "\<not> parsed_all_results s \<Longrightarrow>
   run key single_page_server n s (Suc k) =
   run key single_page_server (Suc n) (s\<lparr>results := results s @ [item1]\<rparr>) k"
  by (simp add: single_page_server_def loop_body_def pagination_def
      parse_items_def make_item_def ok_page_def is_error_def article1_def item1_def)

lemma single_page_never_leaves:
  "\<not> parsed_all_results s \<Longrightarrow> \<exists>s'. run key single_page_server n s k = Inr s'"
proof (induction k arbitrary: n s)
  case 0
  show ?case by simp
next
  case (Suc k)
  have "\<not> parsed_all_results (s\<lparr>results := results s @ [item1]\<rparr>)" using Suc.prems by simp
  then have "\<exists>s'. run key single_page_server (Suc n) (s\<lparr>results := results s @ [item1]\<rparr>) k = Inr s'"
    by (rule Suc.IH)
  then show ?case by (simp only: single_page_step [OF Suc.prems])
qed

text \<open>
  C1. The claim: when the first response has the status code 200, a field \<open>results\<close> and
  no field \<open>nextPageCursor\<close>, the function returns exactly the items of that page. The
  code does not: the flag \<open>parsed_all_results\<close> is set only under
  \<open>"nextPageCursor" in json_response\<close>, so after such a page the loop test is still
  open, the items are appended and a second request, again without a cursor, is sent.
  Against a service that answers every request with its single page, with any key, the
  state after the first iteration is not final, the second request equals the first, and
  the function never returns.
\<close>

theorem C1_absent_cursor_never_returns:
  "run key single_page_server 0 initial (Suc 0) =
     Inr \<lparr>results = [item1], parsed_all_results = False, next_page_cursor = JNull\<rparr> \<and>
   request_at key single_page_server (Suc 0) = request_at key single_page_server 0 \<and>
   get_list_of_all_articles key single_page_server = None"
proof -
  have np: "\<not> parsed_all_results initial" by (simp add: initial_def)
  have a: "run key single_page_server 0 initial (Suc 0) =
     Inr \<lparr>results = [item1], parsed_all_results = False, next_page_cursor = JNull\<rparr>"
    by (simp only: single_page_step [OF np]) (simp add: initial_def)
  have b: "request_at key single_page_server (Suc 0) = request_at key single_page_server 0"
    by (simp only: request_at_def a) (simp add: page_request_def initial_def)
  have c: "get_list_of_all_articles key single_page_server = None"
    unfolding get_list_of_all_articles_def
    by (rule fetch_loop_None) (rule single_page_never_leaves [OF np])
  from a b c show ?thesis by simp
qed

section \<open>Leaving the loop\<close>

lemmas eval_defs = loop_body_def pagination_def parse_items_def make_item_def
  page_request_def initial_def ok_page_def is_error_def article1_def article2_def article3_def
  item1_def item2_def item3_def page_c1_def page_null_def page_empty_def garbage_def failure_def
  after_c1_def

lemma reach_leave:
  assumes "run key client 0 initial n = Inr s" and "\<not> parsed_all_results s"
    and "loop_body s (client n (page_request key s)) = Inl out"
  shows "get_list_of_all_articles key client = Some out"
proof -
  have "run key client 0 initial (Suc n) = Inl out"
    by (simp only: run_Inr_Suc [OF assms(1)] assms(2,3) if_False)
  then show ?thesis unfolding get_list_of_all_articles_def by (rule fetch_loop_run_Inl)
qed

lemma reach_last:
  assumes "run key client 0 initial n = Inr s" and "\<not> parsed_all_results s"
    and "loop_body s (client n (page_request key s)) = Inr s'" and "parsed_all_results s'"
  shows "get_list_of_all_articles key client = Some (Returned (Some (results s')))"
proof -
  have "run key client 0 initial (Suc n) = Inr s'"
    by (simp only: run_Inr_Suc [OF assms(1)] assms(2,3) if_False)
  then have "run key client 0 initial (Suc (Suc n)) = Inl (Returned (Some (results s')))"
    by (simp only: run_Inr_Suc assms(4) if_True)
  then show ?thesis unfolding get_list_of_all_articles_def by (rule fetch_loop_run_Inl)
qed

lemma run_replay_c1:
  "run key (replay (page_c1 # rs) d) 0 initial (Suc 0) = Inr after_c1"
  by (simp add: eval_defs)

section \<open>A body that is not JSON\<close>

text \<open>
  C2, as the code has it. The function has no exception handler, and it tests
  \<open>response.is_error\<close> before it calls \<open>response.json()\<close>. So when the function
  receives, after any number of pages, a response on whose body \<open>response.json()\<close>
  raises, it returns \<open>None\<close> if the status code is from 400 to 599, and otherwise the
  exception of \<open>response.json()\<close> escapes from the function unchanged, whichever it is.
\<close>

theorem C2_unparsable_body:
  assumes "run key client 0 initial n = Inr s" and "\<not> parsed_all_results s"
    and "body (client n (page_request key s)) = Inl e"
  shows "get_list_of_all_articles key client =
           Some (if is_error (client n (page_request key s)) then Returned None
                 else Raised e)"
proof -
  have "loop_body s (client n (page_request key s)) =
          Inl (if is_error (client n (page_request key s)) then Returned None
               else Raised e)"
    using assms(3) by (simp add: loop_body_def)
  with assms(1,2) show ?thesis by (rule reach_leave)
qed

text \<open>
  The theorem at a second response whose body is not JSON with the status code 200, at
  one whose body is not text with the status code 200, and at one whose body is not JSON
  with the status code 500.
\<close>

theorem C2_unparsable_body_witness:
  "run ''k'' (replay [page_c1, garbage] failure) 0 initial (Suc 0) = Inr after_c1 \<and>
   get_list_of_all_articles ''k'' (replay [page_c1, garbage] failure) =
     Some (Raised JSONDecodeError) \<and>
   get_list_of_all_articles ''k'' (replay [page_c1, undecodable] failure) =
     Some (Raised UnicodeDecodeError) \<and>
   get_list_of_all_articles ''k'' (replay [page_c1, failure] garbage) = Some (Returned None)"
proof -
  have np: "\<not> parsed_all_results after_c1" by (simp add: after_c1_def)
  have b1: "body (replay [page_c1, garbage] failure (Suc 0) (page_request ''k'' after_c1)) =
      Inl JSONDecodeError"
    by (simp add: garbage_def)
  have b2: "body (replay [page_c1, undecodable] failure (Suc 0) (page_request ''k'' after_c1)) =
      Inl UnicodeDecodeError"
    by (simp add: undecodable_def)
  have b3: "body (replay [page_c1, failure] garbage (Suc 0) (page_request ''k'' after_c1)) =
      Inl JSONDecodeError"
    by (simp add: failure_def)
  from C2_unparsable_body [OF run_replay_c1 np b1] C2_unparsable_body [OF run_replay_c1 np b2]
    C2_unparsable_body [OF run_replay_c1 np b3]
    run_replay_c1 [of "''k''" "[garbage]" failure]
  show ?thesis by (simp add: garbage_def undecodable_def failure_def is_error_def)
qed

text \<open>
  The claim as the specification states it fails: a first response with the status code
  200 and a body that is not JSON makes the function raise, not return \<open>None\<close>.
\<close>

theorem C2_unparsable_body_raises:
  "status_code (replay [] garbage 0 (page_request ''k'' initial)) = 200 \<and>
   body (replay [] garbage 0 (page_request ''k'' initial)) = Inl JSONDecodeError \<and>
   get_list_of_all_articles ''k'' (replay [] garbage) = Some (Raised JSONDecodeError) \<and>
   get_list_of_all_articles ''k'' (replay [] garbage) \<noteq> Some (Returned None)"
proof -
  have "run ''k'' (replay [] garbage) 0 initial (Suc 0) = Inl (Raised JSONDecodeError)"
    by (simp add: eval_defs)
  then have "get_list_of_all_articles ''k'' (replay [] garbage) = Some (Raised JSONDecodeError)"
    unfolding get_list_of_all_articles_def by (rule fetch_loop_run_Inl)
  then show ?thesis by (simp add: garbage_def)
qed

section \<open>Responses that make the function return None\<close>

text \<open>
  C3, as the code has it. When the function receives, after any number of pages, a
  response with an error status, which is a status code from 400 to 599, or a response
  with another status code whose body is a JSON object without a field \<open>results\<close>, it
  returns \<open>None\<close>: the items of the earlier pages are not returned. A status code
  outside 400 to 599 is no failure for the code, whether it is a success or not, and a
  body that is no container at all is outside this statement.
\<close>

theorem C3_failure_discards_pages:
  assumes "run key client 0 initial n = Inr s" and "\<not> parsed_all_results s"
    and "is_error (client n (page_request key s)) \<or>
         (\<exists>kvs. body (client n (page_request key s)) = Inr (JObj kvs) \<and>
                map_of kvs ''results'' = None)"
  shows "get_list_of_all_articles key client = Some (Returned None)"
proof -
  have "loop_body s (client n (page_request key s)) = Inl (Returned None)"
  proof (cases "is_error (client n (page_request key s))")
    case True
    then show ?thesis by (simp add: loop_body_def)
  next
    case False
    with assms(3) obtain kvs where
      "body (client n (page_request key s)) = Inr (JObj kvs)" and "map_of kvs ''results'' = None"
      by blast
    with False show ?thesis by (simp add: loop_body_obj)
  qed
  with assms(1,2) show ?thesis by (rule reach_leave)
qed

text \<open>
  The theorem at a second response with an error status, and at a second response without
  \<open>results\<close>; one article had been collected by then.
\<close>

theorem C3_failure_discards_pages_witness:
  "run ''k'' (replay [page_c1, failure] page_null) 0 initial (Suc 0) = Inr after_c1 \<and>
   results after_c1 = [item1] \<and>
   get_list_of_all_articles ''k'' (replay [page_c1, failure] page_null) = Some (Returned None) \<and>
   get_list_of_all_articles ''k'' (replay [page_c1, no_results] page_null) = Some (Returned None)"
proof -
  have np: "\<not> parsed_all_results after_c1" by (simp add: after_c1_def)
  have b1: "is_error (replay [page_c1, failure] page_null (Suc 0) (page_request ''k'' after_c1)) \<or>
     (\<exists>kvs. body (replay [page_c1, failure] page_null (Suc 0) (page_request ''k'' after_c1)) = Inr (JObj kvs) \<and>
                map_of kvs ''results'' = None)"
    by (simp add: failure_def is_error_def)
  have b2: "is_error (replay [page_c1, no_results] page_null (Suc 0) (page_request ''k'' after_c1)) \<or>
     (\<exists>kvs. body (replay [page_c1, no_results] page_null (Suc 0) (page_request ''k'' after_c1)) = Inr (JObj kvs) \<and>
                map_of kvs ''results'' = None)"
    by (simp add: no_results_def ok_page_def is_error_def)
  from C3_failure_discards_pages [OF run_replay_c1 np b1]
    C3_failure_discards_pages [OF run_replay_c1 np b2]
    run_replay_c1 [of "''k''" "[failure]" page_null]
  show ?thesis by (simp add: after_c1_def)
qed

text \<open>
  The claim as the specification states it fails in two ways. A response with the status
  code 302, which is not a success, is read like a page: with one article and a null
  cursor as the first response, the function returns that article and not \<open>None\<close>.
  And the body \<open>null\<close> is valid JSON without a field \<open>results\<close>, but on it the test
  \<open>"results" not in json_response\<close> raises a type error instead of reaching
  \<open>return None\<close>.
\<close>

theorem C3_redirect_or_null_body:
  "status_code (replay [] redirect_last 0 (page_request ''k'' initial)) = 302 \<and>
   get_list_of_all_articles ''k'' (replay [] redirect_last) = Some (Returned (Some [item1])) \<and>
   status_code (replay [] (ok_page JNull) 0 (page_request ''k'' initial)) = 200 \<and>
   body (replay [] (ok_page JNull) 0 (page_request ''k'' initial)) = Inr JNull \<and>
   field JNull ''results'' = None \<and>
   get_list_of_all_articles ''k'' (replay [] (ok_page JNull)) = Some (Raised TypeError)"
proof -
  have "run ''k'' (replay [] redirect_last) 0 initial (Suc (Suc 0)) =
      Inl (Returned (Some [item1]))"
    by (simp add: eval_defs redirect_last_def)
  then have a: "get_list_of_all_articles ''k'' (replay [] redirect_last) =
      Some (Returned (Some [item1]))"
    unfolding get_list_of_all_articles_def by (rule fetch_loop_run_Inl)
  have "run ''k'' (replay [] (ok_page JNull)) 0 initial (Suc 0) = Inl (Raised TypeError)"
    by (simp add: eval_defs)
  then have b: "get_list_of_all_articles ''k'' (replay [] (ok_page JNull)) = Some (Raised TypeError)"
    unfolding get_list_of_all_articles_def by (rule fetch_loop_run_Inl)
  from a b show ?thesis by (simp add: ok_page_def redirect_last_def)
qed

section \<open>The terminal page\<close>

text \<open>
  C4. When the function receives, after any number of pages, a response without an error
  status whose body has a field \<open>nextPageCursor\<close> that is null or the empty string, and
  a field \<open>results\<close> whose entries all make items, then that iteration both sets the
  flag and appends the items of that page, and the function returns the items collected
  before followed by the items of that page.
\<close>

theorem C4_terminal_page_included:
  assumes "run key client 0 initial n = Inr s" and "\<not> parsed_all_results s"
    and "\<not> is_error (client n (page_request key s))"
    and "body (client n (page_request key s)) = Inr (JObj kvs)"
    and "map_of kvs ''nextPageCursor'' = Some c" and "c = JNull \<or> c = JStr []"
    and "map_of kvs ''results'' = Some (JArr entries)" and "make_items entries = Inr items"
  shows "run key client 0 initial (Suc n) =
           Inr \<lparr>results = results s @ items, parsed_all_results = True, next_page_cursor = c\<rparr> \<and>
         get_list_of_all_articles key client = Some (Returned (Some (results s @ items)))"
proof -
  let ?s' = "\<lparr>results = results s @ items, parsed_all_results = True, next_page_cursor = c\<rparr>"
  have t: "(c = JNull \<or> c = JStr [] \<or> parsed_all_results s) = True"
    using assms(6) by blast
  have eq: "s\<lparr>next_page_cursor := c, parsed_all_results := True,
             results := results s @ items\<rparr> = ?s'"
    by (cases s) simp
  have lb: "loop_body s (client n (page_request key s)) = Inr ?s'"
    by (simp add: loop_body_obj [OF assms(3,4)] assms(5,7,8) t eq)
  have "run key client 0 initial (Suc n) = Inr ?s'"
    by (simp only: run_Inr_Suc [OF assms(1)] assms(2) lb if_False)
  moreover have "get_list_of_all_articles key client = Some (Returned (Some (results ?s')))"
    using assms(1,2) lb by (rule reach_last) simp
  ultimately show ?thesis by simp
qed

text \<open>The theorem at a second page with an empty cursor, and at one with a null cursor.\<close>

theorem C4_terminal_page_included_witness:
  "get_list_of_all_articles ''k'' (replay [page_c1, page_empty] failure) =
     Some (Returned (Some [item1, item3])) \<and>
   get_list_of_all_articles ''k'' (replay [page_c1, page_null] failure) =
     Some (Returned (Some [item1, item2]))"
proof -
  have np: "\<not> parsed_all_results after_c1" by (simp add: after_c1_def)
  have e1: "\<not> is_error (replay [page_c1, page_empty] failure (Suc 0) (page_request ''k'' after_c1))"
    by (simp add: page_empty_def ok_page_def is_error_def)
  have b1: "body (replay [page_c1, page_empty] failure (Suc 0) (page_request ''k'' after_c1)) =
    Inr (JObj [(''results'', JArr [article3]), (''nextPageCursor'', JStr [])])"
    by (simp add: page_empty_def ok_page_def is_error_def)
  have e2: "\<not> is_error (replay [page_c1, page_null] failure (Suc 0) (page_request ''k'' after_c1))"
    by (simp add: page_null_def ok_page_def is_error_def)
  have b2: "body (replay [page_c1, page_null] failure (Suc 0) (page_request ''k'' after_c1)) =
    Inr (JObj [(''results'', JArr [article2]), (''nextPageCursor'', JNull)])"
    by (simp add: page_null_def ok_page_def is_error_def)
  have i3: "make_items [article3] = Inr [item3]" by (simp add: make_item_def article3_def item3_def)
  have i2: "make_items [article2] = Inr [item2]" by (simp add: make_item_def article2_def item2_def)
  have "get_list_of_all_articles ''k'' (replay [page_c1, page_empty] failure) =
     Some (Returned (Some (results after_c1 @ [item3])))"
    using C4_terminal_page_included [OF run_replay_c1 np e1 b1 _ _ _ i3, of "JStr []"] by simp
  moreover have "get_list_of_all_articles ''k'' (replay [page_c1, page_null] failure) =
     Some (Returned (Some (results after_c1 @ [item2])))"
    using C4_terminal_page_included [OF run_replay_c1 np e2 b2 _ _ _ i2, of JNull] by simp
  ultimately show ?thesis by (simp add: after_c1_def)
qed

section \<open>Several pages, the last one without a cursor field\<close>

lemma two_page_first:
  "run key two_page_server 0 initial (Suc k) =
   run key two_page_server (Suc 0)
     \<lparr>results = [item1, item2], parsed_all_results = False, next_page_cursor = JStr ''abc''\<rparr> k"
  by (simp add: two_page_server_def eval_defs)

lemma two_page_step:
  "\<not> parsed_all_results s \<Longrightarrow> next_page_cursor s \<noteq> JNull \<Longrightarrow>
   run key two_page_server n s (Suc k) =
   run key two_page_server (Suc n) (s\<lparr>results := results s @ [item3]\<rparr>) k"
  by (simp add: two_page_server_def eval_defs)

lemma two_page_never_leaves:
  "\<not> parsed_all_results s \<Longrightarrow> next_page_cursor s \<noteq> JNull \<Longrightarrow>
   \<exists>s'. run key two_page_server n s k = Inr s'"
proof (induction k arbitrary: n s)
  case 0
  show ?case by simp
next
  case (Suc k)
  have "\<not> parsed_all_results (s\<lparr>results := results s @ [item3]\<rparr>)"
    and "next_page_cursor (s\<lparr>results := results s @ [item3]\<rparr>) \<noteq> JNull"
    using Suc.prems by simp_all
  then have "\<exists>s'. run key two_page_server (Suc n) (s\<lparr>results := results s @ [item3]\<rparr>) k = Inr s'"
    by (rule Suc.IH)
  then show ?case by (simp only: two_page_step [OF Suc.prems])
qed

text \<open>
  C5. The claim: the pages of a multi-page sequence are returned concatenated in page
  order; in particular a page with the cursor \<open>abc\<close> and two items followed by a page
  without a cursor and one item gives these three items. The code collects the three
  items in this order, but the second page has no field \<open>nextPageCursor\<close>, so the flag
  is not set and the variable keeps the cursor \<open>abc\<close>: the loop sends the request
  with this cursor again. Against a service that answers a request without a cursor with
  the first page and a request with a cursor with the last page, the third request equals
  the second and the function never returns.
\<close>

theorem C5_absent_cursor_after_pages_never_returns:
  "run key two_page_server 0 initial (Suc (Suc 0)) =
     Inr \<lparr>results = [item1, item2, item3], parsed_all_results = False,
          next_page_cursor = JStr ''abc''\<rparr> \<and>
   request_at key two_page_server (Suc (Suc 0)) = request_at key two_page_server (Suc 0) \<and>
   get_list_of_all_articles key two_page_server = None"
proof -
  let ?s1 = "\<lparr>results = [item1, item2], parsed_all_results = False,
    next_page_cursor = JStr ''abc''\<rparr>"
  have r1: "run key two_page_server 0 initial (Suc 0) = Inr ?s1"
    by (simp only: two_page_first) simp
  have a: "run key two_page_server 0 initial (Suc (Suc 0)) =
     Inr \<lparr>results = [item1, item2, item3], parsed_all_results = False,
          next_page_cursor = JStr ''abc''\<rparr>"
    unfolding two_page_first by (subst two_page_step) simp_all
  have b: "request_at key two_page_server (Suc (Suc 0)) = request_at key two_page_server (Suc 0)"
    by (simp only: request_at_def a r1) (simp add: page_request_def)
  have "\<exists>s'. run key two_page_server 0 initial k = Inr s'" for k
  proof (cases k)
    case 0
    then show ?thesis by simp
  next
    case (Suc j)
    have "\<exists>s'. run key two_page_server (Suc 0) ?s1 j = Inr s'"
      by (rule two_page_never_leaves) simp_all
    then show ?thesis by (simp only: Suc two_page_first)
  qed
  then have c: "get_list_of_all_articles key two_page_server = None"
    unfolding get_list_of_all_articles_def by (rule fetch_loop_None)
  from a b c show ?thesis by simp
qed

section \<open>Building the items\<close>

lemma make_items_append:
  "make_items (as @ bs) =
     (case make_items as of
        Inl e \<Rightarrow> Inl e
      | Inr xs \<Rightarrow> (case make_items bs of Inl e \<Rightarrow> Inl e | Inr ys \<Rightarrow> Inr (xs @ ys)))"
  by (induction as) (simp_all split: sum.splits)

lemma make_item_obj:
  "make_item (JObj kvs) =
     (case map_of kvs ''id'' of
        None \<Rightarrow> Inl (KeyError ''id'')
      | Some i \<Rightarrow>
          (case map_of kvs ''url'' of
             None \<Rightarrow> Inl (KeyError ''url'')
           | Some u \<Rightarrow>
               Inr \<lparr>item_id = i, url = u,
                    title = (case map_of kvs ''title'' of None \<Rightarrow> JNull | Some t \<Rightarrow> t)\<rparr>))"
  by (simp add: make_item_def split: option.splits)

lemma make_item_error:
  assumes "make_item x = Inl e"
  shows "e = KeyError ''id'' \<or> e = KeyError ''url'' \<or> e = TypeError"
proof (cases x)
  case (JObj kvs)
  with assms show ?thesis by (auto simp: make_item_obj split: option.splits)
qed (use assms in \<open>simp_all add: make_item_def\<close>)

lemma make_items_error:
  "make_items xs = Inl e \<Longrightarrow> e = KeyError ''id'' \<or> e = KeyError ''url'' \<or> e = TypeError"
proof (induction xs)
  case Nil
  then show ?case by simp
next
  case (Cons x xs)
  show ?case
  proof (cases "make_item x")
    case (Inl e')
    with Cons.prems have "e' = e" by simp
    with Inl show ?thesis using make_item_error by blast
  next
    case (Inr y)
    with Cons.prems have "make_items xs = Inl e" by (simp split: sum.splits)
    then show ?thesis by (rule Cons.IH)
  qed
qed

lemma make_items_member_fails:
  "x \<in> set xs \<Longrightarrow> make_item x = Inl e0 \<Longrightarrow> \<exists>e. make_items xs = Inl e"
proof (induction xs)
  case Nil
  then show ?case by simp
next
  case (Cons y ys)
  show ?case
  proof (cases "make_item y")
    case (Inl e')
    then show ?thesis by simp
  next
    case (Inr v)
    with Cons.prems have "x \<in> set ys" by auto
    then have "\<exists>e. make_items ys = Inl e" using Cons.prems(2) by (rule Cons.IH)
    with Inr show ?thesis by auto
  qed
qed

text \<open>
  C6. An entry of \<open>results\<close> that is an object with an \<open>id\<close> and a \<open>url\<close>, and whose
  \<open>title\<close> is absent or null, makes a \<open>ReadwiseItem\<close> with that id and that url
  unchanged and with the title \<open>None\<close>. In a page where the entries before and after it
  make items too, the iteration neither returns \<open>None\<close> nor raises: it goes back to
  the loop test with the items of the page appended, this item among them at its place.
\<close>

theorem C6_optional_title:
  assumes "map_of kvs ''id'' = Some i" and "map_of kvs ''url'' = Some u"
    and "map_of kvs ''title'' = None \<or> map_of kvs ''title'' = Some JNull"
    and "\<not> is_error r" and "body r = Inr (JObj pg)"
    and "map_of pg ''results'' = Some (JArr (pre @ JObj kvs # post))"
    and "make_items pre = Inr xs" and "make_items post = Inr ys"
  shows "make_item (JObj kvs) = Inr \<lparr>item_id = i, url = u, title = JNull\<rparr> \<and>
         (\<exists>s'. loop_body s r = Inr s' \<and>
               results s' = results s @ xs @ \<lparr>item_id = i, url = u, title = JNull\<rparr> # ys)"
proof -
  let ?it = "\<lparr>item_id = i, url = u, title = JNull\<rparr>"
  have mi: "make_item (JObj kvs) = Inr ?it"
    using assms(1-3) by (auto simp: make_item_obj)
  have ms: "make_items (pre @ JObj kvs # post) = Inr (xs @ ?it # ys)"
    by (simp add: make_items_append assms(7,8) mi)
  have "\<exists>s'. loop_body s r = Inr s' \<and> results s' = results s @ xs @ ?it # ys"
    by (cases "map_of pg ''nextPageCursor''")
      (simp_all add: loop_body_obj [OF assms(4,5)] assms(6) ms)
  with mi show ?thesis by simp
qed

text \<open>
  The theorem at a page of three entries, the second without a title; the third entry has
  a null title and gives an item without a title as well.
\<close>

theorem C6_optional_title_witness:
  "make_item article1 = Inr item1 \<and> make_item article3 = Inr item3 \<and>
   (\<exists>s'. loop_body initial
            (ok_page (JObj [(''results'', JArr [article2, article1, article3])])) = Inr s' \<and>
         results s' = [item2, item1, item3])"
proof -
  have p: "\<not> is_error (ok_page (JObj [(''results'', JArr [article2, article1, article3])]))"
    "body (ok_page (JObj [(''results'', JArr [article2, article1, article3])])) =
       Inr (JObj [(''results'', JArr [article2, article1, article3])])"
    by (simp_all add: ok_page_def is_error_def)
  have r: "map_of [(''results'', JArr [article2, article1, article3])] ''results'' =
      Some (JArr ([article2] @ JObj [(''id'', JStr ''1''), (''url'', JStr ''u1'')] # [article3]))"
    by (simp add: article1_def)
  have m2: "make_items [article2] = Inr [item2]"
    by (simp add: make_item_def article2_def item2_def)
  have m3: "make_items [article3] = Inr [item3]"
    by (simp add: make_item_def article3_def item3_def)
  have a1: "map_of [(''id'', JStr ''1''), (''url'', JStr ''u1'')] ''id'' = Some (JStr ''1'')"
    "map_of [(''id'', JStr ''1''), (''url'', JStr ''u1'')] ''url'' = Some (JStr ''u1'')"
    "map_of [(''id'', JStr ''1''), (''url'', JStr ''u1'')] ''title'' = None \<or>
     map_of [(''id'', JStr ''1''), (''url'', JStr ''u1'')] ''title'' = Some JNull"
    by simp_all
  from C6_optional_title [OF a1 p r m2 m3, of initial] m3
  show ?thesis by (simp add: article1_def item1_def initial_def make_item_def article3_def item3_def)
qed

text \<open>
  C8. When the function receives, after any number of pages, a response without an error
  status whose \<open>results\<close> array has an entry that is an object without \<open>id\<close> or without
  \<open>url\<close>, an exception escapes from the function; it does not return \<open>None\<close>. The
  exception is the lookup failure of the first entry that cannot be built: a key error
  for \<open>id\<close> or \<open>url\<close>, or a type error if an earlier entry is not an object. When the
  entries before the faulty one all make items, it is the key error of the first key that
  the faulty entry lacks.
\<close>

theorem C8_missing_id_or_url_raises:
  assumes "run key client 0 initial n = Inr s" and "\<not> parsed_all_results s"
    and "\<not> is_error (client n (page_request key s))"
    and "body (client n (page_request key s)) = Inr (JObj pg)"
    and "map_of pg ''results'' = Some (JArr entries)"
    and "JObj kvs \<in> set entries"
    and "map_of kvs ''id'' = None \<or> map_of kvs ''url'' = None"
  shows "\<exists>e. get_list_of_all_articles key client = Some (Raised e) \<and>
             (e = KeyError ''id'' \<or> e = KeyError ''url'' \<or> e = TypeError) \<and>
             ((\<exists>pre post xs. entries = pre @ JObj kvs # post \<and> make_items pre = Inr xs) \<longrightarrow>
              e = KeyError (if map_of kvs ''id'' = None then ''id'' else ''url''))"
proof -
  let ?k = "KeyError (if map_of kvs ''id'' = None then ''id'' else ''url'')"
  have bad: "make_item (JObj kvs) = Inl ?k"
    using assms(7) by (auto simp: make_item_obj split: option.splits)
  from make_items_member_fails [OF assms(6) bad] obtain e where e: "make_items entries = Inl e"
    by blast
  have "loop_body s (client n (page_request key s)) = Inl (Raised e)"
    by (simp add: loop_body_obj [OF assms(3,4)] assms(5) e)
  with assms(1,2) have g: "get_list_of_all_articles key client = Some (Raised e)"
    by (rule reach_leave)
  have k: "e = KeyError ''id'' \<or> e = KeyError ''url'' \<or> e = TypeError"
    using e by (rule make_items_error)
  have "e = ?k" if "entries = pre @ JObj kvs # post" and "make_items pre = Inr xs" for pre post xs
    using e that bad by (simp add: make_items_append)
  with g k show ?thesis by blast
qed

text \<open>The theorem at a second page whose middle entry has no url.\<close>

theorem C8_missing_id_or_url_raises_witness:
  "get_list_of_all_articles ''k''
     (replay [page_c1, ok_page (JObj [(''results'', JArr [article2, bad_article, article3]),
                                      (''nextPageCursor'', JNull)])] failure) =
   Some (Raised (KeyError ''url''))"
proof -
  let ?pg = "[(''results'', JArr [article2, bad_article, article3]), (''nextPageCursor'', JNull)]"
  let ?c = "replay [page_c1, ok_page (JObj ?pg)] failure"
  have np: "\<not> parsed_all_results after_c1" by (simp add: after_c1_def)
  have e: "\<not> is_error (?c (Suc 0) (page_request ''k'' after_c1))" by (simp add: ok_page_def is_error_def)
  have b: "body (?c (Suc 0) (page_request ''k'' after_c1)) = Inr (JObj ?pg)"
    by (simp add: ok_page_def is_error_def)
  have r: "map_of ?pg ''results'' = Some (JArr [article2, bad_article, article3])" by simp
  have m: "JObj [(''id'', JStr ''9''), (''title'', JStr ''no url'')] \<in>
    set [article2, bad_article, article3]" by (simp add: bad_article_def)
  have u: "map_of [(''id'', JStr ''9''), (''title'', JStr ''no url'')] ''id'' = None \<or>
    map_of [(''id'', JStr ''9''), (''title'', JStr ''no url'')] ''url'' = None" by simp
  have sp: "\<exists>pre post xs. [article2, bad_article, article3] =
      pre @ JObj [(''id'', JStr ''9''), (''title'', JStr ''no url'')] # post \<and>
      make_items pre = Inr xs"
  proof (intro exI conjI)
    show "[article2, bad_article, article3] =
      [article2] @ JObj [(''id'', JStr ''9''), (''title'', JStr ''no url'')] # [article3]"
      by (simp add: bad_article_def)
    show "make_items [article2] = Inr [item2]"
      by (simp add: make_item_def article2_def item2_def)
  qed
  from C8_missing_id_or_url_raises [OF run_replay_c1 np e b r m u] sp
  show ?thesis by auto
qed

section \<open>The cursor in the requests\<close>

lemma run_Suc_Inr:
  assumes "run key client 0 initial (Suc n) = Inr s'"
  shows "\<exists>s. run key client 0 initial n = Inr s \<and> \<not> parsed_all_results s \<and>
             loop_body s (client n (page_request key s)) = Inr s'"
proof (cases "run key client 0 initial n")
  case (Inl out)
  then have "run key client 0 initial (Suc n) = Inl out" by (rule run_Inl_Suc)
  with assms show ?thesis by simp
next
  case (Inr s)
  from assms have "(if parsed_all_results s then Inl (Returned (Some (results s)))
      else loop_body s (client n (page_request key s))) = Inr s'"
    by (simp only: run_Inr_Suc [OF Inr])
  then have "\<not> parsed_all_results s \<and> loop_body s (client n (page_request key s)) = Inr s'"
    by (cases "parsed_all_results s") simp_all
  with Inr show ?thesis by simp
qed

text \<open>
  The cursor variable holds the cursor most recently supplied, and an open loop test
  means that this cursor is neither null nor empty.
\<close>

lemma cursor_invariant:
  "run key client 0 initial n = Inr s \<Longrightarrow>
   next_page_cursor s = (case latest_cursor key client n of None \<Rightarrow> JNull | Some c \<Rightarrow> c) \<and>
   (parsed_all_results s \<or>
    (latest_cursor key client n \<noteq> Some JNull \<and> latest_cursor key client n \<noteq> Some (JStr [])))"
proof (induction n arbitrary: s)
  case 0
  then show ?case by (auto simp: initial_def)
next
  case (Suc n s')
  from run_Suc_Inr [OF Suc.prems] obtain s where
    r: "run key client 0 initial n = Inr s" and np: "\<not> parsed_all_results s" and
    lb: "loop_body s (client n (page_request key s)) = Inr s'"
    by blast
  from Suc.IH [OF r] np have
    c: "next_page_cursor s = (case latest_cursor key client n of None \<Rightarrow> JNull | Some c \<Rightarrow> c)" and
    l: "latest_cursor key client n \<noteq> Some JNull" "latest_cursor key client n \<noteq> Some (JStr [])"
    by simp_all
  from loop_body_Inr [OF lb] obtain kvs where
    b: "body (client n (page_request key s)) = Inr (JObj kvs)" and
    c': "next_page_cursor s' =
      (case map_of kvs ''nextPageCursor'' of None \<Rightarrow> next_page_cursor s | Some c \<Rightarrow> c)" and
    p': "parsed_all_results s' =
      (case map_of kvs ''nextPageCursor'' of
         None \<Rightarrow> parsed_all_results s
       | Some c \<Rightarrow> c = JNull \<or> c = JStr [] \<or> parsed_all_results s)"
    by blast
  have rq: "request_at key client n = Some (page_request key s)"
    by (simp add: request_at_def r np)
  have lc: "latest_cursor key client (Suc n) =
    (case map_of kvs ''nextPageCursor'' of None \<Rightarrow> latest_cursor key client n | Some c \<Rightarrow> Some c)"
    by (simp add: response_at_def rq supplied_cursor_def b)
  show ?case
  proof (cases "map_of kvs ''nextPageCursor''")
    case None
    with c c' p' l lc np show ?thesis by simp
  next
    case (Some c0)
    with c' p' lc show ?thesis by auto
  qed
qed

text \<open>
  C7. The first request has no parameters. Every request the function sends has the fixed
  address and the authorization header, and its only parameter, if any, is \<open>pageCursor\<close>
  with exactly the value of the cursor that the server supplied most recently; it has no
  parameter when no response so far had a field \<open>nextPageCursor\<close>. A cursor that is sent
  is neither null nor the empty string.
\<close>

theorem C7_cursor_only_threaded:
  assumes "request_at key client n = Some rq"
  shows "request_at key client 0 =
           Some \<lparr>rq_url = ''https://readwise.io/api/v3/list/'',
                 rq_headers = [(''Authorization'', ''Token '' @ key)],
                 rq_params = None\<rparr> \<and>
         rq = \<lparr>rq_url = ''https://readwise.io/api/v3/list/'',
               rq_headers = [(''Authorization'', ''Token '' @ key)],
               rq_params =
                 (case latest_cursor key client n of
                    None \<Rightarrow> None
                  | Some c \<Rightarrow> Some [(''pageCursor'', c)])\<rparr> \<and>
         latest_cursor key client n \<noteq> Some JNull \<and>
         latest_cursor key client n \<noteq> Some (JStr [])"
proof -
  have first: "request_at key client 0 =
           Some \<lparr>rq_url = ''https://readwise.io/api/v3/list/'',
                 rq_headers = [(''Authorization'', ''Token '' @ key)],
                 rq_params = None\<rparr>"
    by (simp add: request_at_def initial_def page_request_def)
  from assms obtain s where r: "run key client 0 initial n = Inr s"
    and np: "\<not> parsed_all_results s" and rq: "rq = page_request key s"
    by (cases "run key client 0 initial n") (auto simp: request_at_def split: if_splits)
  from cursor_invariant [OF r] np have
    c: "next_page_cursor s = (case latest_cursor key client n of None \<Rightarrow> JNull | Some c \<Rightarrow> c)" and
    l: "latest_cursor key client n \<noteq> Some JNull" "latest_cursor key client n \<noteq> Some (JStr [])"
    by simp_all
  have "rq = \<lparr>rq_url = ''https://readwise.io/api/v3/list/'',
               rq_headers = [(''Authorization'', ''Token '' @ key)],
               rq_params =
                 (case latest_cursor key client n of
                    None \<Rightarrow> None
                  | Some c \<Rightarrow> Some [(''pageCursor'', c)])\<rparr>"
  proof (cases "latest_cursor key client n")
    case None
    with c show ?thesis by (simp add: rq page_request_def)
  next
    case (Some c0)
    with c l show ?thesis by (simp add: rq page_request_def)
  qed
  with first l show ?thesis by simp
qed

text \<open>The theorem at the second request, after a first page with the cursor \<open>c1\<close>.\<close>

theorem C7_cursor_only_threaded_witness:
  "request_at ''k'' (replay [page_c1] failure) 0 =
     Some \<lparr>rq_url = ''https://readwise.io/api/v3/list/'',
           rq_headers = [(''Authorization'', ''Token k'')],
           rq_params = None\<rparr> \<and>
   request_at ''k'' (replay [page_c1] failure) (Suc 0) =
     Some \<lparr>rq_url = ''https://readwise.io/api/v3/list/'',
           rq_headers = [(''Authorization'', ''Token k'')],
           rq_params = Some [(''pageCursor'', JStr ''c1'')]\<rparr> \<and>
   latest_cursor ''k'' (replay [page_c1] failure) (Suc 0) = Some (JStr ''c1'')"
proof -
  have rq: "request_at ''k'' (replay [page_c1] failure) (Suc 0) = Some (page_request ''k'' after_c1)"
    by (simp only: request_at_def run_replay_c1) (simp add: after_c1_def)
  have lc: "latest_cursor ''k'' (replay [page_c1] failure) (Suc 0) = Some (JStr ''c1'')"
    by (simp add: response_at_def request_at_def supplied_cursor_def initial_def page_c1_def
        ok_page_def is_error_def)
  from C7_cursor_only_threaded [OF rq] rq lc show ?thesis by simp
qed

section \<open>Termination\<close>

lemma redirecting_step:
  assumes "\<not> parsed_all_results s"
  shows "\<exists>s'. \<not> parsed_all_results s' \<and>
           (\<forall>k. run key redirecting_server n s (Suc k) = run key redirecting_server (Suc n) s' k)"
proof -
  let ?s' = "s\<lparr>next_page_cursor := JStr ''c1'', parsed_all_results := False,
    results := results s @ [item1]\<rparr>"
  have "run key redirecting_server n s (Suc k) = run key redirecting_server (Suc n) ?s' k" for k
    using assms by (simp add: redirecting_server_def eval_defs)
  moreover have "\<not> parsed_all_results ?s'" by simp
  ultimately show ?thesis by blast
qed

lemma redirecting_never_leaves:
  "\<not> parsed_all_results s \<Longrightarrow> \<exists>s'. run key redirecting_server n s k = Inr s'"
proof (induction k arbitrary: n s)
  case 0
  show ?case by simp
next
  case (Suc k)
  from redirecting_step [OF Suc.prems, of key n] obtain s1 where
    np: "\<not> parsed_all_results s1" and
    st: "run key redirecting_server n s (Suc k) = run key redirecting_server (Suc n) s1 k"
    by blast
  from Suc.IH [OF np, of "Suc n"] show ?case by (simp only: st)
qed

text \<open>
  C9, as the code has it. Suppose that the response to request \<open>n\<close>, if the function
  gets as far as sending that request, has an error status, which is a status code from
  400 to 599, or a body without a field \<open>results\<close>, or a body whose
  \<open>nextPageCursor\<close> is null or the empty string. Then the function terminates: it has
  left the loop at the latest at the loop test that follows iteration \<open>n\<close>.
\<close>

theorem C9_ending_response_terminates:
  assumes "\<And>s. run key client 0 initial n = Inr s \<Longrightarrow> \<not> parsed_all_results s \<Longrightarrow>
             ending (client n (page_request key s))"
  shows "\<exists>out. run key client 0 initial (Suc (Suc n)) = Inl out \<and>
               get_list_of_all_articles key client = Some out"
proof -
  have "\<exists>out. run key client 0 initial (Suc (Suc n)) = Inl out"
  proof (cases "run key client 0 initial n")
    case (Inl out)
    then have "run key client 0 initial (n + 2) = Inl out" by (rule run_Inl_add)
    then show ?thesis by simp
  next
    case (Inr s)
    show ?thesis
    proof (cases "parsed_all_results s")
      case True
      have "run key client 0 initial (Suc n) = Inl (Returned (Some (results s)))"
        by (simp only: run_Inr_Suc [OF Inr] True if_True)
      then have "run key client 0 initial (Suc (Suc n)) = Inl (Returned (Some (results s)))"
        by (rule run_Inl_Suc)
      then show ?thesis ..
    next
      case False
      from assms [OF Inr False] have e: "ending (client n (page_request key s))" .
      have r1: "run key client 0 initial (Suc n) = loop_body s (client n (page_request key s))"
        by (simp only: run_Inr_Suc [OF Inr] False if_False)
      from loop_body_ending [OF e, of s] show ?thesis
      proof
        assume "\<exists>out. loop_body s (client n (page_request key s)) = Inl out"
        then obtain out where "run key client 0 initial (Suc n) = Inl out" using r1 by auto
        then have "run key client 0 initial (Suc (Suc n)) = Inl out" by (rule run_Inl_Suc)
        then show ?thesis ..
      next
        assume "\<exists>s'. loop_body s (client n (page_request key s)) = Inr s' \<and> parsed_all_results s'"
        then obtain s' where s': "run key client 0 initial (Suc n) = Inr s'"
          and p: "parsed_all_results s'" using r1 by auto
        have "run key client 0 initial (Suc (Suc n)) = Inl (Returned (Some (results s')))"
          by (simp only: run_Inr_Suc [OF s'] p if_True)
        then show ?thesis ..
      qed
    qed
  qed
  then obtain out where out: "run key client 0 initial (Suc (Suc n)) = Inl out" ..
  then have "get_list_of_all_articles key client = Some out"
    unfolding get_list_of_all_articles_def by (rule fetch_loop_run_Inl)
  with out show ?thesis by blast
qed

text \<open>The theorem at a second response of each of the three kinds.\<close>

theorem C9_ending_response_terminates_witness:
  "ending failure \<and> ending no_results \<and> ending page_null \<and> ending page_empty \<and>
   (\<exists>out. get_list_of_all_articles ''k'' (replay [page_c1] failure) = Some out) \<and>
   (\<exists>out. get_list_of_all_articles ''k'' (replay [page_c1] no_results) = Some out) \<and>
   (\<exists>out. get_list_of_all_articles ''k'' (replay [page_c1] page_null) = Some out) \<and>
   (\<exists>out. get_list_of_all_articles ''k'' (replay [page_c1] page_empty) = Some out)"
proof -
  have e: "ending failure" "ending no_results" "ending page_null" "ending page_empty"
    by (simp_all add: ending_def failure_def is_error_def no_results_def page_null_def page_empty_def
        ok_page_def is_error_def)
  have h: "ending (replay [page_c1] d (Suc 0) (page_request ''k'' s))" if "ending d" for d s
    using that by simp
  from C9_ending_response_terminates [of "''k''" "replay [page_c1] failure" "Suc 0", OF h [OF e(1)]]
    C9_ending_response_terminates [of "''k''" "replay [page_c1] no_results" "Suc 0", OF h [OF e(2)]]
    C9_ending_response_terminates [of "''k''" "replay [page_c1] page_null" "Suc 0", OF h [OF e(3)]]
    C9_ending_response_terminates [of "''k''" "replay [page_c1] page_empty" "Suc 0", OF h [OF e(4)]]
    e
  show ?thesis by blast
qed

text \<open>
  The claim as the specification states it fails: a status that is not a success need not
  be an error status. Against a service that answers every request with the status code
  302, an article and the cursor \<open>c1\<close>, each response is read like a page, the loop
  test stays open and the function never returns.
\<close>

theorem C9_redirects_never_end:
  "status_code (redirecting_server 0 (page_request ''k'' initial)) = 302 \<and>
   status_code (redirecting_server (Suc 0) (page_request ''k'' after_c1)) = 302 \<and>
   get_list_of_all_articles ''k'' redirecting_server = None"
proof -
  have np: "\<not> parsed_all_results initial" by (simp add: initial_def)
  have "get_list_of_all_articles ''k'' redirecting_server = None"
    unfolding get_list_of_all_articles_def
    by (rule fetch_loop_None) (rule redirecting_never_leaves [OF np])
  then show ?thesis by (simp add: redirecting_server_def)
qed

section \<open>Determinism\<close>




end
